theory Spec2Isabelle
  imports
    Main
    "HOL-Library.AList"
    "HOL-Library.Char_ord"
    "HOL-Library.List_Lexorder"
begin

section \<open>The metrics store of \<open>pkg/metrics/store.go\<close>\<close>

subsection \<open>Label sets and the identity string\<close>

text \<open>
  A Go \<open>map[string]string\<close> is an association list whose keys are pairwise distinct;
  the order of the list stands for the order in which \<open>range\<close> happens to visit the
  map, which Go leaves unspecified. Two lists present the same label set when they
  agree as mappings (\<open>map_of\<close>). Go strings are byte sequences compared bytewise,
  which is the lexicographic order on \<open>char list\<close>.
\<close>

type_synonym label_set = "(string \<times> string) list"

definition maxLabelCount :: nat where
  "maxLabelCount = 10"

text \<open>\<open>labels[k]\<close>: the value stored under \<open>k\<close>, the empty string when absent.\<close>

definition index :: "label_set \<Rightarrow> string \<Rightarrow> string" where
  "index labels k = (case map_of labels k of Some v \<Rightarrow> v | None \<Rightarrow> [])"

text \<open>\<open>_, ok := labels[k]\<close>.\<close>

definition has_key :: "label_set \<Rightarrow> string \<Rightarrow> bool" where
  "has_key labels k = (case map_of labels k of Some v \<Rightarrow> True | None \<Rightarrow> False)"

definition sortedLabels :: "label_set \<Rightarrow> string list \<times> string list" where
  "sortedLabels labels =
     (let keys = sort (map fst labels);
          values = map (\<lambda>k. index labels k) keys
      in (keys, values))"

text \<open>\<open>strings.Join(elems, sep)\<close>.\<close>

fun Join :: "string list \<Rightarrow> string \<Rightarrow> string" where
  "Join [] sep = []"
| "Join [x] sep = x"
| "Join (x # y # xs) sep = x @ sep @ Join (y # xs) sep"

definition fullName :: "string \<Rightarrow> label_set \<Rightarrow> string" where
  "fullName t labels =
     (let (keys, values) = sortedLabels labels;
          pair = map (\<lambda>i. keys ! i @ ''.'' @ values ! i) [0..<length keys]
      in t @ ''.'' @ Join pair ''.'')"

text \<open>
  The identity as the specification words it: the type followed, for each label in
  sorted key order, by \<open>.<key>.<value>\<close>.
\<close>

definition identity_spec :: "string \<Rightarrow> label_set \<Rightarrow> string" where
  "identity_spec t labels =
     t @ concat (map (\<lambda>k. ''.'' @ k @ ''.'' @ index labels k) (sort (map fst labels)))"

definition mapEqual :: "label_set \<Rightarrow> label_set \<Rightarrow> bool" where
  "mapEqual x y =
     (if length x \<noteq> length y then False
      else list_all (\<lambda>(k, xv). has_key y k \<and> index y k = xv) x)"


subsection \<open>Instruments\<close>

text \<open>
  The instruments and the per-group sub-registry belong to the package
  \<open>github.com/rcrowley/go-metrics\<close>, which \<open>store.go\<close> imports and which is not under
  \<open>src/\<close>. What this section defines follows the specification's description of them.
\<close>

text \<open>
  Modelled from the spec: the uniform sample of go-metrics, a reservoir of fixed
  capacity holding the retained observations.
\<close>

record UniformSample =
  reservoirSize :: nat
  samples :: "int list"

text \<open>Modelled from the spec: \<open>gometrics.NewUniformSample\<close>, an empty reservoir of capacity \<open>n\<close>.\<close>

definition NewUniformSample :: "nat \<Rightarrow> UniformSample" where
  "NewUniformSample n = \<lparr>reservoirSize = n, samples = []\<rparr>"

text \<open>
  Modelled from the spec: an observation is retained while the reservoir has room;
  once the reservoir is full it evicts an old sample chosen at random. The random
  choice is the argument \<open>r\<close>; a draw that names no slot of the reservoir drops the
  observation.
\<close>

definition sample_Update :: "int \<Rightarrow> nat \<Rightarrow> UniformSample \<Rightarrow> UniformSample" where
  "sample_Update v r s =
     (if length (samples s) < reservoirSize s then s\<lparr>samples := samples s @ [v]\<rparr>
      else if r < length (samples s) then s\<lparr>samples := (samples s)[r := v]\<rparr>
      else s)"

text \<open>
  Modelled from the spec: an instrument of go-metrics is a Counter, a Gauge or a
  Histogram over a sample; a new counter or gauge starts at zero.
\<close>

datatype instrument =
    StandardCounter int
  | StandardGauge int
  | StandardHistogram UniformSample

definition NewCounter :: instrument where
  "NewCounter = StandardCounter 0"

definition NewGauge :: instrument where
  "NewGauge = StandardGauge 0"

definition NewHistogram :: "UniformSample \<Rightarrow> instrument" where
  "NewHistogram smp = StandardHistogram smp"

fun is_Counter :: "instrument \<Rightarrow> bool" where
  "is_Counter (StandardCounter c) = True"
| "is_Counter i = False"

fun is_Gauge :: "instrument \<Rightarrow> bool" where
  "is_Gauge (StandardGauge g) = True"
| "is_Gauge i = False"

fun is_Histogram :: "instrument \<Rightarrow> bool" where
  "is_Histogram (StandardHistogram h) = True"
| "is_Histogram i = False"

subsection \<open>The store and the heap\<close>

text \<open>
  The struct \<open>metrics\<close>. Its \<open>registry\<close> maps an instrument name to the address of the
  instrument; the two cached slices are \<open>nil\<close> (\<open>None\<close>) until \<open>SortedLabels\<close> fills them.
\<close>

record metrics =
  typ_name :: string
  labels :: label_set
  labelKeys :: "string list option"
  labelVals :: "string list option"
  registry :: "(string \<times> nat) list"

text \<open>
  A value of the interface \<open>types.Metrics\<close>: a pointer to a \<open>metrics\<close> struct on the heap
  (\<open>Stats\<close>), or the no-op group (\<open>NilMetrics\<close>), which carries the type and the labels it
  was asked for and retains no state.
\<close>

datatype Metrics =
    Stats nat
  | NilMetrics string label_set

datatype error = errLabelCountExceeded

text \<open>
  Modelled from the spec: \<open>NewNilMetrics\<close> and the no-op group it returns are declared in
  a file of the package that is not under \<open>src/\<close>. It returns a no-op group for the type
  and the labels, and its construction cannot fail.
\<close>

definition NewNilMetrics :: "string \<Rightarrow> label_set \<Rightarrow> error + Metrics" where
  "NewNilMetrics t ls = Inr (NilMetrics t ls)"

record store =
  rejectAll :: bool
  exclusionLabels :: "string list"
  metrics :: "(string \<times> Metrics) list"

text \<open>
  The state of the process: the global \<open>defaultStore\<close>, the \<open>metrics\<close> structs allocated so
  far and the instruments allocated so far. An address is an index into its list; a new
  object is appended, so its address is fresh.
\<close>

record state =
  defaultStore :: store
  heap :: "metrics list"
  instruments :: "instrument list"

definition init :: state where
  "init = \<lparr>defaultStore = \<lparr>rejectAll = False, exclusionLabels = [], metrics = []\<rparr>,
           heap = [], instruments = []\<rparr>"

definition SetStatsMatcher :: "bool \<Rightarrow> string list \<Rightarrow> state \<Rightarrow> state" where
  "SetStatsMatcher all exclusions s =
     (let st = defaultStore s;
          st1 = (if all then st\<lparr>rejectAll := True\<rparr> else st)
      in s\<lparr>defaultStore := st1\<lparr>exclusionLabels := exclusions\<rparr>\<rparr>)"

fun exclusion_loop :: "string list \<Rightarrow> label_set \<Rightarrow> bool" where
  "exclusion_loop [] ls = False"
| "exclusion_loop (label # rest) ls =
     (if has_key ls label then True else exclusion_loop rest ls)"

definition isExclusion :: "label_set \<Rightarrow> state \<Rightarrow> bool" where
  "isExclusion ls s =
     (if rejectAll (defaultStore s) then True
      else exclusion_loop (exclusionLabels (defaultStore s)) ls)"

definition NewMetrics :: "string \<Rightarrow> label_set \<Rightarrow> state \<Rightarrow> (error + Metrics) \<times> state" where
  "NewMetrics t ls s =
     (if length ls > maxLabelCount then (Inl errLabelCountExceeded, s)
      else if isExclusion ls s then (NewNilMetrics t ls, s)
      else
        let name = fullName t ls in
        case map_of (metrics (defaultStore s)) name of
          Some m \<Rightarrow> (Inr m, s)
        | None \<Rightarrow>
            let a = length (heap s);
                stats = \<lparr>typ_name = t, labels = ls, labelKeys = None, labelVals = None,
                         registry = []\<rparr>
            in (Inr (Stats a),
                s\<lparr>heap := heap s @ [stats],
                  defaultStore := (defaultStore s)
                    \<lparr>metrics := AList.update name (Stats a) (metrics (defaultStore s))\<rparr>\<rparr>))"

definition GetAll :: "state \<Rightarrow> Metrics list" where
  "GetAll s = map snd (metrics (defaultStore s))"


subsection \<open>Methods of a Metric-Group\<close>

text \<open>
  The receiver \<open>s *metrics\<close> is the address \<open>a\<close>. Every address the program holds was
  returned by an allocation, so it lies inside the heap; for any other address the
  accessors panic (\<open>None\<close>), as Go does on a nil receiver, and the teardown does nothing.
\<close>

definition SortedLabels :: "nat \<Rightarrow> state \<Rightarrow> ((string list \<times> string list) \<times> state) option" where
  "SortedLabels a s =
     (if a < length (heap s) then
        (case (labelKeys (heap s ! a), labelVals (heap s ! a)) of
           (Some ks, Some vs) \<Rightarrow> Some ((ks, vs), s)
         | _ \<Rightarrow>
            let (keys, values) = sortedLabels (labels (heap s ! a))
            in Some ((keys, values),
                 s\<lparr>heap := (heap s)[a := (heap s ! a)\<lparr>labelKeys := Some keys,
                                                      labelVals := Some values\<rparr>]\<rparr>))
      else None)"

text \<open>
  Modelled from the spec: \<open>registry.GetOrRegister\<close> of go-metrics is a lookup-or-create
  keyed by the name alone. An instrument registered under the name is returned as it
  is, whatever its kind; otherwise the new instrument is allocated and registered.
\<close>

definition GetOrRegister :: "string \<Rightarrow> instrument \<Rightarrow> nat \<Rightarrow> state \<Rightarrow> nat \<times> state" where
  "GetOrRegister name new a s =
     (case map_of (registry (heap s ! a)) name of
        Some i \<Rightarrow> (i, s)
      | None \<Rightarrow>
          let i = length (instruments s)
          in (i, s\<lparr>instruments := instruments s @ [new],
                   heap := (heap s)[a := (heap s ! a)
                     \<lparr>registry := AList.update name i (registry (heap s ! a))\<rparr>]\<rparr>))"

text \<open>
  The type assertions \<open>.(gometrics.Counter)\<close>, \<open>.(gometrics.Gauge)\<close> and
  \<open>.(gometrics.Histogram)\<close> have no \<open>ok\<close> result: they panic when the instrument is of
  another kind.
\<close>

definition assert_kind :: "(instrument \<Rightarrow> bool) \<Rightarrow> nat \<times> state \<Rightarrow> (nat \<times> state) option" where
  "assert_kind is_kind r =
     (case r of (i, s) \<Rightarrow>
        if i < length (instruments s) \<and> is_kind (instruments s ! i) then Some (i, s)
        else None)"

definition Counter :: "string \<Rightarrow> nat \<Rightarrow> state \<Rightarrow> (nat \<times> state) option" where
  "Counter key a s =
     (if a < length (heap s) then assert_kind is_Counter (GetOrRegister key NewCounter a s)
      else None)"

definition Gauge :: "string \<Rightarrow> nat \<Rightarrow> state \<Rightarrow> (nat \<times> state) option" where
  "Gauge key a s =
     (if a < length (heap s) then assert_kind is_Gauge (GetOrRegister key NewGauge a s)
      else None)"

definition Histogram :: "string \<Rightarrow> nat \<Rightarrow> state \<Rightarrow> (nat \<times> state) option" where
  "Histogram key a s =
     (if a < length (heap s) then
        assert_kind is_Histogram
          (GetOrRegister key (NewHistogram (NewUniformSample 100)) a s)
      else None)"

text \<open>
  Modelled from the spec: \<open>registry.UnregisterAll\<close> of go-metrics removes every
  instrument from the sub-registry.
\<close>

definition UnregisterAll :: "nat \<Rightarrow> state \<Rightarrow> state" where
  "UnregisterAll a s =
     (if a < length (heap s)
      then s\<lparr>heap := (heap s)[a := (heap s ! a)\<lparr>registry := []\<rparr>]\<rparr>
      else s)"

text \<open>
  Modelled from the spec: on the no-op group, whose methods are not under \<open>src/\<close>, the
  teardown does nothing. \<open>m.UnregisterAll()\<close> on an interface value dispatches on what
  the value holds.
\<close>

fun Metrics_UnregisterAll :: "Metrics \<Rightarrow> state \<Rightarrow> state" where
  "Metrics_UnregisterAll (Stats a) s = UnregisterAll a s"
| "Metrics_UnregisterAll (NilMetrics t ls) s = s"

definition ResetAll :: "state \<Rightarrow> state" where
  "ResetAll s =
     (let s1 = fold Metrics_UnregisterAll (map snd (metrics (defaultStore s))) s
      in s1\<lparr>defaultStore := (defaultStore s1)
              \<lparr>metrics := [], rejectAll := False, exclusionLabels := []\<rparr>\<rparr>)"

text \<open>Modelled from the spec: \<open>Counter.Inc\<close> of go-metrics; a counter accumulates its increments.\<close>

definition Inc :: "nat \<Rightarrow> int \<Rightarrow> state \<Rightarrow> state" where
  "Inc i n s =
     (if i < length (instruments s) then
        (case instruments s ! i of
           StandardCounter c \<Rightarrow> s\<lparr>instruments := (instruments s)[i := StandardCounter (c + n)]\<rparr>
         | _ \<Rightarrow> s)
      else s)"

text \<open>
  Modelled from the spec: \<open>Histogram.Update\<close> of go-metrics; a histogram passes each
  observation, with the random draw, to its reservoir.
\<close>

definition Update :: "nat \<Rightarrow> int \<Rightarrow> nat \<Rightarrow> state \<Rightarrow> state" where
  "Update i v r s =
     (if i < length (instruments s) then
        (case instruments s ! i of
           StandardHistogram smp \<Rightarrow>
             s\<lparr>instruments := (instruments s)[i := StandardHistogram (sample_Update v r smp)]\<rparr>
         | _ \<Rightarrow> s)
      else s)"

subsection \<open>Sequences of calls\<close>

text \<open>
  A client of the package issues calls one after the other. A call that panics is
  taken to be recovered and leaves the state as it was: the only panics are the type
  assertions and the receiver check, which come before any write.
\<close>

datatype call =
    CallSetStatsMatcher bool "string list"
  | CallNewMetrics string label_set
  | CallGetAll
  | CallResetAll
  | CallSortedLabels nat
  | CallCounter nat string
  | CallGauge nat string
  | CallHistogram nat string
  | CallUnregisterAll Metrics
  | CallInc nat int
  | CallUpdate nat int nat

definition state_of :: "('a \<times> state) option \<Rightarrow> state \<Rightarrow> state" where
  "state_of r s = (case r of Some (x, s') \<Rightarrow> s' | None \<Rightarrow> s)"

fun exec :: "call \<Rightarrow> state \<Rightarrow> state" where
  "exec (CallSetStatsMatcher all exclusions) s = SetStatsMatcher all exclusions s"
| "exec (CallNewMetrics t ls) s = snd (NewMetrics t ls s)"
| "exec CallGetAll s = s"
| "exec CallResetAll s = ResetAll s"
| "exec (CallSortedLabels a) s = state_of (SortedLabels a s) s"
| "exec (CallCounter a key) s = state_of (Counter key a s) s"
| "exec (CallGauge a key) s = state_of (Gauge key a s) s"
| "exec (CallHistogram a key) s = state_of (Histogram key a s) s"
| "exec (CallUnregisterAll m) s = Metrics_UnregisterAll m s"
| "exec (CallInc i n) s = Inc i n s"
| "exec (CallUpdate i v r) s = Update i v r s"

definition run :: "call list \<Rightarrow> state \<Rightarrow> state" where
  "run cs s = fold exec cs s"

text \<open>
  What every state the package can reach satisfies: the table is a map (no key twice)
  and holds only pointers to allocated \<open>metrics\<close> structs.
\<close>

definition store_inv :: "state \<Rightarrow> bool" where
  "store_inv s =
     (distinct (map fst (metrics (defaultStore s))) \<and>
      list_all (\<lambda>m. case m of Stats a \<Rightarrow> a < length (heap s) | NilMetrics t ls \<Rightarrow> False)
        (GetAll s))"



text \<open>
  The instrument at address \<open>i\<close> is a histogram over a reservoir of capacity \<open>cap\<close> that
  retains at most \<open>cap\<close> samples.
\<close>

definition reservoir_bounded :: "nat \<Rightarrow> nat \<Rightarrow> state \<Rightarrow> bool" where
  "reservoir_bounded cap i s =
     (i < length (instruments s) \<and>
      (case instruments s ! i of
         StandardHistogram smp \<Rightarrow> reservoirSize smp = cap \<and> length (samples smp) \<le> cap
       | _ \<Rightarrow> False))"

text \<open>The calls that write \<open>defaultStore\<close>; every other call leaves it as it is.\<close>

fun store_call :: "call \<Rightarrow> bool" where
  "store_call (CallSetStatsMatcher all e) = True"
| "store_call (CallNewMetrics t ls) = True"
| "store_call CallResetAll = True"
| "store_call c = False"

section \<open>Properties\<close>

subsection \<open>The identity string\<close>

lemma length_sortedLabels:
  "length (fst (sortedLabels ls)) = length (snd (sortedLabels ls))"
  by (simp add: sortedLabels_def Let_def)

lemma pair_loop_map:
  "map (\<lambda>i. ks ! i @ sep @ map f ks ! i) [0..<length ks] = map (\<lambda>k. k @ sep @ f k) ks"
  by (rule nth_equalityI) simp_all

lemma fullName_unfold:
  "fullName t ls = t @ ''.'' @ Join (map (\<lambda>k. k @ ''.'' @ index ls k) (sort (map fst ls))) ''.''"
proof -
  have "map (\<lambda>i. sort (map fst ls) ! i @ ''.'' @ map (index ls) (sort (map fst ls)) ! i)
          [0..<length (sort (map fst ls))]
        = map (\<lambda>k. k @ ''.'' @ index ls k) (sort (map fst ls))"
    by (rule pair_loop_map)
  then show ?thesis
    unfolding fullName_def sortedLabels_def Let_def prod.case by simp
qed

lemma Join_concat:
  "xs \<noteq> [] \<Longrightarrow> sep @ Join xs sep = concat (map (\<lambda>x. sep @ x) xs)"
  by (induction xs sep rule: Join.induct) simp_all

lemma sorted_keys_cong:
  assumes "distinct (map fst l1)" "distinct (map fst l2)" "map_of l1 = map_of l2"
  shows "sort (map fst l1) = sort (map fst l2)"
proof -
  have "set (map fst l1) = dom (map_of l1)" "set (map fst l2) = dom (map_of l2)"
    by (simp_all add: dom_map_of_conv_image_fst)
  with assms(3) have "set (sort (map fst l1)) = set (sort (map fst l2))" by simp
  moreover have "distinct (sort (map fst l1))" "distinct (sort (map fst l2))"
    using assms(1,2) by simp_all
  ultimately show ?thesis
    by (intro sorted_distinct_set_unique) simp_all
qed

lemma index_cong: "map_of l1 = map_of l2 \<Longrightarrow> index l1 = index l2"
  by (rule ext) (simp add: index_def)


lemma fullName_cong:
  assumes "distinct (map fst l1)" "distinct (map fst l2)" "map_of l1 = map_of l2"
  shows "fullName t l1 = fullName t l2"
  by (simp add: fullName_unfold sorted_keys_cong [OF assms] index_cong [OF assms(3)])

lemma length_cong:
  assumes "distinct (map fst l1)" "distinct (map fst l2)" "map_of l1 = map_of l2"
  shows "length l1 = length l2"
proof -
  have "card (fst ` set l1) = length l1" "card (fst ` set l2) = length l2"
    using distinct_card [OF assms(1)] distinct_card [OF assms(2)] by simp_all
  moreover have "fst ` set l1 = fst ` set l2"
    using assms(3) by (simp add: dom_map_of_conv_image_fst [symmetric])
  ultimately show ?thesis by simp
qed


subsection \<open>Creating a Metric-Group\<close>

lemma has_key_iff: "has_key ls k \<longleftrightarrow> k \<in> fst ` set ls"
proof -
  have "has_key ls k \<longleftrightarrow> k \<in> dom (map_of ls)"
    by (auto simp: has_key_def split: option.splits)
  then show ?thesis by (simp add: dom_map_of_conv_image_fst)
qed

lemma exclusion_loop_iff: "exclusion_loop xs ls \<longleftrightarrow> (\<exists>k \<in> set xs. has_key ls k)"
  by (induction xs) simp_all


lemma isExclusion_rejectAll: "rejectAll (defaultStore s) \<Longrightarrow> isExclusion ls s"
  by (simp add: isExclusion_def)

lemma count_key_one:
  "distinct (map fst al) \<Longrightarrow> map_of al k = Some v \<Longrightarrow> length (filter (\<lambda>e. fst e = k) al) = 1"
proof (induction al)
  case Nil
  then show ?case by simp
next
  case (Cons e al)
  show ?case
  proof (cases "fst e = k")
    case True
    with Cons.prems(1) have "k \<notin> fst ` set al" by simp
    then have "\<forall>x \<in> set al. fst x \<noteq> k" by (auto simp: image_iff)
    then have "filter (\<lambda>e. fst e = k) al = []" by (simp add: filter_empty_conv)
    with True show ?thesis by simp
  next
    case False
    with Cons show ?thesis by (cases e) auto
  qed
qed

lemma set_update_subset: "set (AList.update k v al) \<subseteq> insert (k, v) (set al)"
  by (induction al) auto

text \<open>What each operation does to the table and to the size of the heap.\<close>

lemma NewMetrics_cases:
  "NewMetrics t ls s =
     (if 10 < length ls then (Inl errLabelCountExceeded, s)
      else if isExclusion ls s then (Inr (NilMetrics t ls), s)
      else case map_of (metrics (defaultStore s)) (fullName t ls) of
             Some m \<Rightarrow> (Inr m, s)
           | None \<Rightarrow> (Inr (Stats (length (heap s))),
               s\<lparr>heap := heap s @ [\<lparr>typ_name = t, labels = ls, labelKeys = None,
                                    labelVals = None, registry = []\<rparr>],
                 defaultStore := (defaultStore s)
                   \<lparr>metrics := AList.update (fullName t ls) (Stats (length (heap s)))
                      (metrics (defaultStore s))\<rparr>\<rparr>))"
  by (simp add: NewMetrics_def maxLabelCount_def NewNilMetrics_def Let_def split: option.splits)

lemma NewMetrics_hit:
  assumes "length ls \<le> 10" "\<not> isExclusion ls s"
    "map_of (metrics (defaultStore s)) (fullName t ls) = Some m"
  shows "NewMetrics t ls s = (Inr m, s)"
  using assms by (simp add: NewMetrics_cases)

lemma NewMetrics_table:
  assumes "length ls \<le> 10" "\<not> isExclusion ls s"
  shows "\<exists>m. fst (NewMetrics t ls s) = Inr m \<and>
             map_of (metrics (defaultStore (snd (NewMetrics t ls s)))) (fullName t ls) = Some m"
  using assms by (simp add: NewMetrics_cases update_conv' split: option.splits)

lemma NewMetrics_keeps:
  assumes "map_of (metrics (defaultStore s)) n = Some m"
  shows "map_of (metrics (defaultStore (snd (NewMetrics t ls s)))) n = Some m"
  using assms by (auto simp: NewMetrics_cases update_conv' split: option.splits)

lemma NewMetrics_policy:
  "rejectAll (defaultStore (snd (NewMetrics t ls s))) = rejectAll (defaultStore s)"
  "exclusionLabels (defaultStore (snd (NewMetrics t ls s))) = exclusionLabels (defaultStore s)"
  by (simp_all add: NewMetrics_cases split: option.splits)

lemma tracked_iff:
  "(case m of Stats a \<Rightarrow> a < n | NilMetrics t ls \<Rightarrow> False) \<longleftrightarrow> (\<exists>a. m = Stats a \<and> a < n)"
  by (cases m) auto

lemma store_inv_iff:
  "store_inv s \<longleftrightarrow>
     distinct (map fst (metrics (defaultStore s))) \<and>
     (\<forall>e \<in> set (metrics (defaultStore s)). \<exists>a. snd e = Stats a \<and> a < length (heap s))"
  by (simp add: store_inv_def GetAll_def list_all_iff tracked_iff)

lemma NewMetrics_inv:
  assumes "store_inv s"
  shows "store_inv (snd (NewMetrics t ls s))"
proof (cases "10 < length ls \<or> isExclusion ls s")
  case True
  with assms show ?thesis by (auto simp: NewMetrics_cases)
next
  case False
  show ?thesis
  proof (cases "map_of (metrics (defaultStore s)) (fullName t ls)")
    case (Some m)
    with False assms show ?thesis by (simp add: NewMetrics_cases)
  next
    case None
    let ?al = "AList.update (fullName t ls) (Stats (length (heap s))) (metrics (defaultStore s))"
    have d: "distinct (map fst ?al)"
      using assms by (simp add: store_inv_iff distinct_update)
    have "\<exists>a. snd e = Stats a \<and> a < Suc (length (heap s))" if "e \<in> set ?al" for e
    proof -
      from that set_update_subset
      have "e = (fullName t ls, Stats (length (heap s))) \<or> e \<in> set (metrics (defaultStore s))"
        by fastforce
      then show ?thesis
        using assms by (auto simp: store_inv_iff less_Suc_eq)
    qed
    with d None False show ?thesis
      by (simp add: NewMetrics_cases store_inv_iff)
  qed
qed

subsection \<open>Calls and the invariant\<close>

lemma SetStatsMatcher_simps:
  "metrics (defaultStore (SetStatsMatcher all e s)) = metrics (defaultStore s)"
  "heap (SetStatsMatcher all e s) = heap s"
  "instruments (SetStatsMatcher all e s) = instruments s"
  "rejectAll (defaultStore (SetStatsMatcher all e s)) = (all \<or> rejectAll (defaultStore s))"
  "exclusionLabels (defaultStore (SetStatsMatcher all e s)) = e"
  by (simp_all add: SetStatsMatcher_def Let_def)

lemma GetOrRegister_frame:
  "defaultStore (snd (GetOrRegister n new a s)) = defaultStore s"
  "length (heap (snd (GetOrRegister n new a s))) = length (heap s)"
  by (simp_all add: GetOrRegister_def Let_def split: option.splits)

lemma assert_kind_frame:
  "state_of (assert_kind k (GetOrRegister n new a s)) s = s \<or>
   state_of (assert_kind k (GetOrRegister n new a s)) s = snd (GetOrRegister n new a s)"
  by (simp add: assert_kind_def state_of_def split: prod.splits)

lemma accessor_frame:
  "defaultStore (state_of (assert_kind k (GetOrRegister n new a s)) s) = defaultStore s"
  "length (heap (state_of (assert_kind k (GetOrRegister n new a s)) s)) = length (heap s)"
  using assert_kind_frame [of k n new a s] by (auto simp: GetOrRegister_frame)

lemma state_of_None: "state_of None s = s"
  by (simp add: state_of_def)

lemma SortedLabels_frame:
  "defaultStore (state_of (SortedLabels a s) s) = defaultStore s"
  "length (heap (state_of (SortedLabels a s) s)) = length (heap s)"
  "instruments (state_of (SortedLabels a s) s) = instruments s"
  by (simp_all add: SortedLabels_def state_of_def Let_def split: option.splits prod.splits)

lemma UnregisterAll_frame:
  "defaultStore (UnregisterAll a s) = defaultStore s"
  "length (heap (UnregisterAll a s)) = length (heap s)"
  "instruments (UnregisterAll a s) = instruments s"
  by (simp_all add: UnregisterAll_def)

lemma Metrics_UnregisterAll_frame:
  "defaultStore (Metrics_UnregisterAll m s) = defaultStore s"
  "length (heap (Metrics_UnregisterAll m s)) = length (heap s)"
  "instruments (Metrics_UnregisterAll m s) = instruments s"
  by (cases m; simp add: UnregisterAll_frame)+

lemma Inc_frame:
  "defaultStore (Inc i n s) = defaultStore s"
  "heap (Inc i n s) = heap s"
  by (simp_all add: Inc_def split: instrument.splits)

lemma Update_frame:
  "defaultStore (Update i v r s) = defaultStore s"
  "heap (Update i v r s) = heap s"
  by (simp_all add: Update_def split: instrument.splits)

lemma fold_UnregisterAll_frame:
  "defaultStore (fold Metrics_UnregisterAll ms s) = defaultStore s"
  "length (heap (fold Metrics_UnregisterAll ms s)) = length (heap s)"
  "instruments (fold Metrics_UnregisterAll ms s) = instruments s"
  by (induction ms arbitrary: s; simp add: Metrics_UnregisterAll_frame)+

lemma ResetAll_simps:
  "metrics (defaultStore (ResetAll s)) = []"
  "rejectAll (defaultStore (ResetAll s)) = False"
  "exclusionLabels (defaultStore (ResetAll s)) = []"
  "length (heap (ResetAll s)) = length (heap s)"
  "instruments (ResetAll s) = instruments s"
  by (simp_all add: ResetAll_def Let_def fold_UnregisterAll_frame)

lemma exec_frame:
  assumes "\<not> store_call c"
  shows "defaultStore (exec c s) = defaultStore s" "length (heap (exec c s)) = length (heap s)"
  using assms
  by (cases c; simp add: Counter_def Gauge_def Histogram_def accessor_frame state_of_None
        SortedLabels_frame Metrics_UnregisterAll_frame Inc_frame Update_frame)+

lemma store_inv_frame:
  assumes "store_inv s" "defaultStore s' = defaultStore s" "length (heap s') = length (heap s)"
  shows "store_inv s'"
  using assms by (simp add: store_inv_iff)

lemma store_inv_init: "store_inv init"
  by (simp add: store_inv_iff init_def)

lemma store_inv_exec:
  assumes "store_inv s"
  shows "store_inv (exec c s)"
proof (cases "store_call c")
  case False
  from store_inv_frame [OF assms exec_frame [OF False]] show ?thesis .
next
  case True
  then show ?thesis
  proof (cases c)
    case (CallSetStatsMatcher all e)
    with assms show ?thesis by (simp add: store_inv_iff SetStatsMatcher_simps)
  next
    case (CallNewMetrics t ls)
    with assms show ?thesis by (simp add: NewMetrics_inv)
  next
    case CallResetAll
    then show ?thesis by (simp add: store_inv_iff ResetAll_simps)
  qed simp_all
qed

lemma run_Nil: "run [] s = s"
  by (simp add: run_def)

lemma run_Cons: "run (c # cs) s = run cs (exec c s)"
  by (simp add: run_def)

lemma run_append: "run (cs @ ds) s = run ds (run cs s)"
  by (simp add: run_def)

lemma store_inv_run: "store_inv s \<Longrightarrow> store_inv (run cs s)"
  by (induction cs arbitrary: s) (simp_all add: run_Nil run_Cons store_inv_exec)


subsection \<open>Entries of the table persist\<close>

lemma exec_keeps_entry:
  assumes "map_of (metrics (defaultStore s)) n = Some m" "c \<noteq> CallResetAll"
  shows "map_of (metrics (defaultStore (exec c s))) n = Some m"
proof (cases "store_call c")
  case False
  with assms(1) show ?thesis by (simp add: exec_frame)
next
  case True
  with assms show ?thesis
    by (cases c) (simp_all add: SetStatsMatcher_simps NewMetrics_keeps)
qed

lemma run_keeps_entry:
  assumes "map_of (metrics (defaultStore s)) n = Some m" "CallResetAll \<notin> set cs"
  shows "map_of (metrics (defaultStore (run cs s))) n = Some m"
  using assms
proof (induction cs arbitrary: s)
  case Nil
  then show ?case by (simp add: run_Nil)
next
  case (Cons c cs)
  from Cons.prems have "map_of (metrics (defaultStore (exec c s))) n = Some m"
    by (intro exec_keeps_entry) auto
  with Cons show ?case by (simp add: run_Cons)
qed

lemma exec_keeps_rejectAll:
  assumes "rejectAll (defaultStore s)" "c \<noteq> CallResetAll"
  shows "rejectAll (defaultStore (exec c s))"
proof (cases "store_call c")
  case False
  with assms(1) show ?thesis by (simp add: exec_frame)
next
  case True
  with assms show ?thesis
    by (cases c) (simp_all add: SetStatsMatcher_simps NewMetrics_policy)
qed

lemma run_keeps_rejectAll:
  assumes "rejectAll (defaultStore s)" "CallResetAll \<notin> set cs"
  shows "rejectAll (defaultStore (run cs s))"
  using assms
proof (induction cs arbitrary: s)
  case Nil
  then show ?case by (simp add: run_Nil)
next
  case (Cons c cs)
  from Cons.prems have "rejectAll (defaultStore (exec c s))"
    by (intro exec_keeps_rejectAll) auto
  with Cons show ?case by (simp add: run_Cons)
qed

lemma store_inv_entry:
  assumes "store_inv s" "map_of (metrics (defaultStore s)) n = Some m"
  shows "\<exists>a. m = Stats a \<and> a < length (heap s)"
proof -
  from assms(2) have "(n, m) \<in> set (metrics (defaultStore s))" by (rule map_of_SomeD)
  with assms(1) show ?thesis by (fastforce simp: store_inv_iff)
qed

lemma store_inv_GetAll:
  assumes "store_inv s"
  shows "NilMetrics t ls \<notin> set (GetAll s)"
  using assms by (auto simp: store_inv_iff GetAll_def)

subsection \<open>Outcomes of NewMetrics\<close>


lemma isExclusion_iff:
  "isExclusion ls s \<longleftrightarrow>
     rejectAll (defaultStore s) \<or> (\<exists>k \<in> fst ` set ls. k \<in> set (exclusionLabels (defaultStore s)))"
  by (auto simp: isExclusion_def exclusion_loop_iff has_key_iff)

lemma NewMetrics_excluded:
  assumes "length ls \<le> 10" "isExclusion ls s"
  shows "NewMetrics t ls s = (Inr (NilMetrics t ls), s)"
  using assms by (simp add: NewMetrics_cases)

lemma NewMetrics_too_many:
  assumes "10 < length ls"
  shows "NewMetrics t ls s = (Inl errLabelCountExceeded, s)"
  using assms by (simp add: NewMetrics_cases)

lemma NewMetrics_succeeds:
  assumes "length ls \<le> 10"
  shows "\<exists>m. fst (NewMetrics t ls s) = Inr m"
  using assms by (simp add: NewMetrics_cases split: option.splits)


subsection \<open>Teardown, instruments and the reservoir\<close>

lemma Metrics_UnregisterAll_registry:
  assumes "a < length (heap s)"
  shows "registry (heap (Metrics_UnregisterAll m s) ! a)
         = (if m = Stats a then [] else registry (heap s ! a))"
proof (cases m)
  case (Stats b)
  with assms show ?thesis
    by (cases "b = a") (simp_all add: UnregisterAll_def)
next
  case (NilMetrics t ls)
  then show ?thesis by simp
qed

lemma fold_UnregisterAll_registry:
  assumes "a < length (heap s)"
  shows "registry (heap (fold Metrics_UnregisterAll ms s) ! a)
         = (if Stats a \<in> set ms then [] else registry (heap s ! a))"
  using assms
proof (induction ms arbitrary: s)
  case Nil
  then show ?case by simp
next
  case (Cons m ms)
  from Cons.prems have len: "a < length (heap (Metrics_UnregisterAll m s))"
    by (simp add: Metrics_UnregisterAll_frame)
  from Cons.IH [OF len] Metrics_UnregisterAll_registry [OF Cons.prems, of m]
  show ?case by auto
qed

lemma heap_ResetAll:
  "heap (ResetAll s) = heap (fold Metrics_UnregisterAll (GetAll s) s)"
  by (simp add: ResetAll_def GetAll_def Let_def)

lemma NewMetrics_instruments:
  "instruments (snd (NewMetrics t ls s)) = instruments s"
  by (simp add: NewMetrics_cases split: option.splits)

lemma GetOrRegister_instruments:
  "instruments (snd (GetOrRegister n new a s)) = instruments s \<or>
   instruments (snd (GetOrRegister n new a s)) = instruments s @ [new]"
  by (simp add: GetOrRegister_def Let_def split: option.splits)

lemma accessor_instruments:
  "\<exists>xs. instruments (state_of (assert_kind k (GetOrRegister n new a s)) s) = instruments s @ xs"
  using assert_kind_frame [of k n new a s] GetOrRegister_instruments [of n new a s]
  by (metis append_Nil2)

lemma sample_Update_bound:
  assumes "length (samples smp) \<le> reservoirSize smp"
  shows "reservoirSize (sample_Update v r smp) = reservoirSize smp"
    "length (samples (sample_Update v r smp)) \<le> reservoirSize smp"
  using assms by (simp_all add: sample_Update_def)

lemma reservoir_bounded_frame:
  assumes "reservoir_bounded cap i s" "instruments s' = instruments s @ xs"
  shows "reservoir_bounded cap i s'"
  using assms by (simp add: reservoir_bounded_def nth_append)

lemma reservoir_bounded_Inc:
  assumes "reservoir_bounded cap i s"
  shows "reservoir_bounded cap i (Inc j d s)"
proof (cases "j = i")
  case True
  with assms show ?thesis
    by (auto simp: reservoir_bounded_def Inc_def split: instrument.splits)
next
  case False
  with assms show ?thesis
    by (auto simp: reservoir_bounded_def Inc_def split: instrument.splits)
qed

lemma reservoir_bounded_Update:
  assumes "reservoir_bounded cap i s"
  shows "reservoir_bounded cap i (Update j v r s)"
proof (cases "j = i")
  case True
  with assms show ?thesis
    by (auto simp: reservoir_bounded_def Update_def sample_Update_bound split: instrument.splits)
next
  case False
  with assms show ?thesis
    by (auto simp: reservoir_bounded_def Update_def split: instrument.splits)
qed

lemma reservoir_bounded_exec:
  assumes "reservoir_bounded cap i s"
  shows "reservoir_bounded cap i (exec c s)"
proof (cases c)
  case (CallSetStatsMatcher all e)
  with assms show ?thesis
    by (simp add: reservoir_bounded_def SetStatsMatcher_simps)
next
  case (CallNewMetrics t ls)
  with assms show ?thesis
    by (simp add: reservoir_bounded_def NewMetrics_instruments)
next
  case CallGetAll
  with assms show ?thesis by simp
next
  case CallResetAll
  with assms show ?thesis
    by (simp add: reservoir_bounded_def ResetAll_simps)
next
  case (CallSortedLabels a)
  with assms show ?thesis
    by (simp add: reservoir_bounded_def SortedLabels_frame)
next
  case (CallCounter a key)
  show ?thesis
  proof (cases "a < length (heap s)")
    case True
    from accessor_instruments [of is_Counter key NewCounter a s] True CallCounter
    obtain xs where "instruments (exec c s) = instruments s @ xs"
      by (auto simp: Counter_def)
    from reservoir_bounded_frame [OF assms this] show ?thesis .
  next
    case False
    with assms CallCounter show ?thesis by (simp add: Counter_def state_of_None)
  qed
next
  case (CallGauge a key)
  show ?thesis
  proof (cases "a < length (heap s)")
    case True
    from accessor_instruments [of is_Gauge key NewGauge a s] True CallGauge
    obtain xs where "instruments (exec c s) = instruments s @ xs"
      by (auto simp: Gauge_def)
    from reservoir_bounded_frame [OF assms this] show ?thesis .
  next
    case False
    with assms CallGauge show ?thesis by (simp add: Gauge_def state_of_None)
  qed
next
  case (CallHistogram a key)
  show ?thesis
  proof (cases "a < length (heap s)")
    case True
    from accessor_instruments [of is_Histogram key "NewHistogram (NewUniformSample 100)" a s]
      True CallHistogram
    obtain xs where "instruments (exec c s) = instruments s @ xs"
      by (auto simp: Histogram_def)
    from reservoir_bounded_frame [OF assms this] show ?thesis .
  next
    case False
    with assms CallHistogram show ?thesis by (simp add: Histogram_def state_of_None)
  qed
next
  case (CallUnregisterAll m)
  with assms show ?thesis
    by (simp add: reservoir_bounded_def Metrics_UnregisterAll_frame)
next
  case (CallInc j d)
  with assms show ?thesis by (simp add: reservoir_bounded_Inc)
next
  case (CallUpdate j v r)
  with assms show ?thesis by (simp add: reservoir_bounded_Update)
qed

lemma reservoir_bounded_run:
  "reservoir_bounded cap i s \<Longrightarrow> reservoir_bounded cap i (run cs s)"
  by (induction cs arbitrary: s) (simp_all add: run_Nil run_Cons reservoir_bounded_exec)

lemma GetOrRegister_fresh:
  assumes "a < length (heap s)" "map_of (registry (heap s ! a)) n = None"
  shows "fst (GetOrRegister n new a s) = length (instruments s)"
    "instruments (snd (GetOrRegister n new a s)) = instruments s @ [new]"
    "length (heap (snd (GetOrRegister n new a s))) = length (heap s)"
    "map_of (registry (heap (snd (GetOrRegister n new a s)) ! a)) n = Some (length (instruments s))"
  using assms by (simp_all add: GetOrRegister_def Let_def update_conv')




section \<open>The claims of the specification\<close>

text \<open>
  Claim C1 (deduplication). Let \<open>ls\<close> be a label set of at most 10 entries that the policy
  does not exclude, and let a first \<open>NewMetrics t ls\<close> be made in a state of the package.
  Then the call returns a pointer to a stored Metric-Group, and in every state reached
  afterwards by calls other than \<open>ResetAll\<close>, a call \<open>NewMetrics t ls'\<close> with \<open>ls'\<close> equal
  to \<open>ls\<close> as a mapping (and not excluded by the policy of that moment) returns the same
  pointer and leaves the whole state, heap included, as it was: no new container is
  allocated. The table holds exactly one entry under the identity of \<open>(t, ls)\<close>, and it
  is that pointer.
\<close>

theorem NewMetrics_dedup:
  assumes inv: "store_inv s"
    and wf: "distinct (map fst ls)" "distinct (map fst ls')"
    and same: "map_of ls' = map_of ls"
    and limit: "length ls \<le> 10"
    and first: "\<not> isExclusion ls s"
    and later: "CallResetAll \<notin> set cs" "s2 = run cs (snd (NewMetrics t ls s))"
      "\<not> isExclusion ls' s2"
  shows "\<exists>a. fst (NewMetrics t ls s) = Inr (Stats a) \<and> a < length (heap s2) \<and>
           NewMetrics t ls' s2 = (Inr (Stats a), s2) \<and>
           map_of (metrics (defaultStore s2)) (fullName t ls) = Some (Stats a) \<and>
           length (filter (\<lambda>e. fst e = fullName t ls) (metrics (defaultStore s2))) = 1"
proof -
  let ?s1 = "snd (NewMetrics t ls s)"
  from NewMetrics_table [OF limit first, of t] obtain m where
    m: "fst (NewMetrics t ls s) = Inr m"
      "map_of (metrics (defaultStore ?s1)) (fullName t ls) = Some m"
    by blast
  from run_keeps_entry [OF m(2) later(1)] later(2)
  have e2: "map_of (metrics (defaultStore s2)) (fullName t ls) = Some m" by simp
  have inv2: "store_inv s2"
    unfolding later(2) by (intro store_inv_run NewMetrics_inv inv)
  from store_inv_entry [OF inv2 e2] obtain a where a: "m = Stats a" "a < length (heap s2)"
    by blast
  have n: "fullName t ls' = fullName t ls"
    by (rule fullName_cong [OF wf(2) wf(1) same])
  have "length ls' = length ls"
    by (rule length_cong [OF wf(2) wf(1) same])
  with limit have l': "length ls' \<le> 10" by simp
  from e2 n have "map_of (metrics (defaultStore s2)) (fullName t ls') = Some m" by simp
  from NewMetrics_hit [OF l' later(3) this]
  have hit: "NewMetrics t ls' s2 = (Inr m, s2)" .
  from inv2 have "distinct (map fst (metrics (defaultStore s2)))" by (simp add: store_inv_iff)
  from count_key_one [OF this e2]
  have "length (filter (\<lambda>e. fst e = fullName t ls) (metrics (defaultStore s2))) = 1" .
  with m(1) a hit e2 show ?thesis by simp
qed

theorem NewMetrics_dedup_witness:
  "store_inv init \<and>
   distinct (map fst [(''a'', ''1''), (''b'', ''2'')]) \<and>
   distinct (map fst [(''b'', ''2''), (''a'', ''1'')]) \<and>
   map_of [(''b'', ''2''), (''a'', ''1'')] = map_of [(''a'', ''1''), (''b'', ''2'')] \<and>
   length [(''a'', ''1''), (''b'', ''2'')] \<le> 10 \<and>
   \<not> isExclusion [(''a'', ''1''), (''b'', ''2'')] init \<and>
   CallResetAll \<notin> set [CallCounter 0 ''hits'', CallInc 0 3, CallNewMetrics ''rpc'' []] \<and>
   \<not> isExclusion [(''b'', ''2''), (''a'', ''1'')]
       (run [CallCounter 0 ''hits'', CallInc 0 3, CallNewMetrics ''rpc'' []]
          (snd (NewMetrics ''http'' [(''a'', ''1''), (''b'', ''2'')] init))) \<and>
   (\<exists>a. fst (NewMetrics ''http'' [(''a'', ''1''), (''b'', ''2'')] init) = Inr (Stats a) \<and>
        NewMetrics ''http'' [(''b'', ''2''), (''a'', ''1'')]
          (run [CallCounter 0 ''hits'', CallInc 0 3, CallNewMetrics ''rpc'' []]
             (snd (NewMetrics ''http'' [(''a'', ''1''), (''b'', ''2'')] init)))
        = (Inr (Stats a),
           run [CallCounter 0 ''hits'', CallInc 0 3, CallNewMetrics ''rpc'' []]
             (snd (NewMetrics ''http'' [(''a'', ''1''), (''b'', ''2'')] init))) \<and>
        length (filter (\<lambda>e. fst e = fullName ''http'' [(''a'', ''1''), (''b'', ''2'')])
          (metrics (defaultStore
            (run [CallCounter 0 ''hits'', CallInc 0 3, CallNewMetrics ''rpc'' []]
               (snd (NewMetrics ''http'' [(''a'', ''1''), (''b'', ''2'')] init)))))) = 1)"
proof -
  have h1: "store_inv init" by (rule store_inv_init)
  have h2: "distinct (map fst [(''a'', ''1''), (''b'', ''2'')])" by simp
  have h3: "distinct (map fst [(''b'', ''2''), (''a'', ''1'')])" by simp
  have h4: "map_of [(''b'', ''2''), (''a'', ''1'')] = map_of [(''a'', ''1''), (''b'', ''2'')]"
    by (rule ext) simp
  have h5: "length [(''a'', ''1''), (''b'', ''2'')] \<le> 10" by simp
  have h6: "\<not> isExclusion [(''a'', ''1''), (''b'', ''2'')] init"
    by (simp add: isExclusion_def init_def)
  have h7: "CallResetAll \<notin> set [CallCounter 0 ''hits'', CallInc 0 3, CallNewMetrics ''rpc'' []]"
    by simp
  have h8: "\<not> isExclusion [(''b'', ''2''), (''a'', ''1'')]
       (run [CallCounter 0 ''hits'', CallInc 0 3, CallNewMetrics ''rpc'' []]
          (snd (NewMetrics ''http'' [(''a'', ''1''), (''b'', ''2'')] init)))"
    by code_simp
  from NewMetrics_dedup [OF h1 h2 h3 h4 h5 h6 h7 refl h8]
  show ?thesis using h1 h2 h3 h4 h5 h6 h7 h8 by blast
qed



text \<open>
  Claim C4 (exclusion path). In a state of the package, let \<open>ls\<close> have at most 10 entries
  and let the reject-all flag be set or some key of \<open>ls\<close> be in the excluded-key list.
  Then \<open>NewMetrics t ls\<close> returns the no-op group and the state as it was, so nothing is
  inserted into the table, and whatever calls follow, \<open>GetAll\<close> never lists that group.
\<close>

theorem NewMetrics_exclusion:
  assumes "store_inv s" "length ls \<le> 10"
    "rejectAll (defaultStore s) \<or>
     (\<exists>k \<in> fst ` set ls. k \<in> set (exclusionLabels (defaultStore s)))"
  shows "NewMetrics t ls s = (Inr (NilMetrics t ls), s) \<and>
         (\<forall>cs. NilMetrics t ls \<notin> set (GetAll (run cs s)))"
proof -
  from assms(3) have "isExclusion ls s" by (simp add: isExclusion_iff)
  with assms(2) have "NewMetrics t ls s = (Inr (NilMetrics t ls), s)"
    by (rule NewMetrics_excluded)
  moreover have "NilMetrics t ls \<notin> set (GetAll (run cs s))" for cs
    by (intro store_inv_GetAll store_inv_run assms(1))
  ultimately show ?thesis by simp
qed

theorem NewMetrics_exclusion_witness:
  "store_inv (SetStatsMatcher False [''env''] init) \<and>
   length [(''env'', ''prod'')] \<le> 10 \<and>
   (\<exists>k \<in> fst ` set [(''env'', ''prod'')].
      k \<in> set (exclusionLabels (defaultStore (SetStatsMatcher False [''env''] init)))) \<and>
   NewMetrics ''http'' [(''env'', ''prod'')] (SetStatsMatcher False [''env''] init)
     = (Inr (NilMetrics ''http'' [(''env'', ''prod'')]), SetStatsMatcher False [''env''] init) \<and>
   NilMetrics ''http'' [(''env'', ''prod'')]
     \<notin> set (GetAll (run [CallNewMetrics ''http'' [(''zone'', ''a'')]]
                       (SetStatsMatcher False [''env''] init)))"
proof -
  have h1: "store_inv (SetStatsMatcher False [''env''] init)"
    using store_inv_exec [OF store_inv_init, of "CallSetStatsMatcher False [''env'']"] by simp
  have h2: "length [(''env'', ''prod'')] \<le> 10" by simp
  have h3: "\<exists>k \<in> fst ` set [(''env'', ''prod'')].
      k \<in> set (exclusionLabels (defaultStore (SetStatsMatcher False [''env''] init)))"
    by (simp add: SetStatsMatcher_simps)
  from h3 have h3': "rejectAll (defaultStore (SetStatsMatcher False [''env''] init)) \<or>
     (\<exists>k \<in> fst ` set [(''env'', ''prod'')].
        k \<in> set (exclusionLabels (defaultStore (SetStatsMatcher False [''env''] init))))"
    by (rule disjI2)
  from NewMetrics_exclusion [OF h1 h2 h3', of "''http''"] h1 h2 h3
  show ?thesis by blast
qed

text \<open>
  Claim C5 (label limit). \<open>NewMetrics t ls\<close> returns the error \<open>errLabelCountExceeded\<close>
  exactly when \<open>ls\<close> has more than 10 entries; it then returns the state as it was, so
  neither the table, the policy nor the heap changes and no Metric-Group is created.
  With exactly 10 entries, and in general with at most 10, the call succeeds; no
  other error is ever returned.
\<close>

theorem NewMetrics_label_limit:
  "(fst (NewMetrics t ls s) = Inl errLabelCountExceeded \<longleftrightarrow> 10 < length ls) \<and>
   (10 < length ls \<longrightarrow> NewMetrics t ls s = (Inl errLabelCountExceeded, s)) \<and>
   (length ls \<le> 10 \<longrightarrow> (\<exists>m. fst (NewMetrics t ls s) = Inr m)) \<and>
   (\<forall>e. fst (NewMetrics t ls s) = Inl e \<longrightarrow> e = errLabelCountExceeded \<and> 10 < length ls)"
proof (cases "10 < length ls")
  case True
  then show ?thesis by (simp add: NewMetrics_too_many)
next
  case False
  then have "length ls \<le> 10" by simp
  from NewMetrics_succeeds [OF this, of t s] False show ?thesis by auto
qed

theorem NewMetrics_label_limit_witness:
  "10 < length (map (\<lambda>k. ([k], ''v'')) ''abcdefghijk'') \<and>
   NewMetrics ''http'' (map (\<lambda>k. ([k], ''v'')) ''abcdefghijk'') init
     = (Inl errLabelCountExceeded, init) \<and>
   length (map (\<lambda>k. ([k], ''v'')) ''abcdefghij'') \<le> 10 \<and>
   (\<exists>m. fst (NewMetrics ''http'' (map (\<lambda>k. ([k], ''v'')) ''abcdefghij'') init) = Inr m)"
proof -
  have h1: "10 < length (map (\<lambda>k. ([k], ''v'')) ''abcdefghijk'')" by simp
  have h2: "length (map (\<lambda>k. ([k], ''v'')) ''abcdefghij'') \<le> 10" by simp
  from NewMetrics_label_limit [of "''http''" "map (\<lambda>k. ([k], ''v'')) ''abcdefghijk''" init] h1
  have a: "NewMetrics ''http'' (map (\<lambda>k. ([k], ''v'')) ''abcdefghijk'') init
     = (Inl errLabelCountExceeded, init)" by blast
  from NewMetrics_label_limit [of "''http''" "map (\<lambda>k. ([k], ''v'')) ''abcdefghij''" init] h2
  have b: "\<exists>m. fst (NewMetrics ''http'' (map (\<lambda>k. ([k], ''v'')) ''abcdefghij'') init) = Inr m"
    by blast
  from h1 a h2 b show ?thesis by blast
qed

text \<open>
  Claim C6 (sticky reject-all). After \<open>SetStatsMatcher True e\<close>, whatever calls other
  than \<open>ResetAll\<close> follow, the flag \<open>rejectAll\<close> is set; it is still set after a further
  \<open>SetStatsMatcher False e'\<close>, and every \<open>NewMetrics\<close> with a label set within the limit
  then returns the no-op group and changes nothing. \<open>ResetAll\<close> clears the flag, and a
  call that clears a set flag is \<open>ResetAll\<close>.
\<close>

theorem rejectAll_sticky:
  assumes "CallResetAll \<notin> set cs"
  shows "rejectAll (defaultStore (run cs (SetStatsMatcher True e s))) \<and>
    rejectAll (defaultStore (SetStatsMatcher False e' (run cs (SetStatsMatcher True e s)))) \<and>
    (length ls \<le> 10 \<longrightarrow>
       NewMetrics t ls (SetStatsMatcher False e' (run cs (SetStatsMatcher True e s)))
         = (Inr (NilMetrics t ls), SetStatsMatcher False e' (run cs (SetStatsMatcher True e s)))) \<and>
    \<not> rejectAll (defaultStore (ResetAll s')) \<and>
    (rejectAll (defaultStore s') \<and> \<not> rejectAll (defaultStore (exec c s')) \<longrightarrow> c = CallResetAll)"
proof -
  have "rejectAll (defaultStore (SetStatsMatcher True e s))"
    by (simp add: SetStatsMatcher_simps)
  from run_keeps_rejectAll [OF this assms]
  have r: "rejectAll (defaultStore (run cs (SetStatsMatcher True e s)))" .
  then have r': "rejectAll (defaultStore (SetStatsMatcher False e' (run cs (SetStatsMatcher True e s))))"
    by (simp add: SetStatsMatcher_simps)
  have "NewMetrics t ls (SetStatsMatcher False e' (run cs (SetStatsMatcher True e s)))
         = (Inr (NilMetrics t ls), SetStatsMatcher False e' (run cs (SetStatsMatcher True e s)))"
    if "length ls \<le> 10"
    using that isExclusion_rejectAll [OF r'] by (rule NewMetrics_excluded)
  moreover have "c = CallResetAll"
    if "rejectAll (defaultStore s')" "\<not> rejectAll (defaultStore (exec c s'))"
    using that exec_keeps_rejectAll [of s' c] by blast
  ultimately show ?thesis using r r' by (simp add: ResetAll_simps)
qed

theorem rejectAll_sticky_witness:
  "CallResetAll \<notin> set [CallSetStatsMatcher False [], CallNewMetrics ''http'' [], CallGetAll] \<and>
   rejectAll (defaultStore
     (run [CallSetStatsMatcher False [], CallNewMetrics ''http'' [], CallGetAll]
        (SetStatsMatcher True [] init))) \<and>
   length [(''env'', ''prod'')] \<le> 10 \<and>
   fst (NewMetrics ''http'' [(''env'', ''prod'')]
     (SetStatsMatcher False []
        (run [CallSetStatsMatcher False [], CallNewMetrics ''http'' [], CallGetAll]
           (SetStatsMatcher True [] init))))
     = Inr (NilMetrics ''http'' [(''env'', ''prod'')])"
proof -
  have h1: "CallResetAll \<notin> set [CallSetStatsMatcher False [], CallNewMetrics ''http'' [], CallGetAll]"
    by simp
  have h2: "length [(''env'', ''prod'')] \<le> 10" by simp
  from rejectAll_sticky [OF h1, of "[]" init "[]" "[(''env'', ''prod'')]" "''http''"] h2
  have "rejectAll (defaultStore
     (run [CallSetStatsMatcher False [], CallNewMetrics ''http'' [], CallGetAll]
        (SetStatsMatcher True [] init))) \<and>
   fst (NewMetrics ''http'' [(''env'', ''prod'')]
     (SetStatsMatcher False []
        (run [CallSetStatsMatcher False [], CallNewMetrics ''http'' [], CallGetAll]
           (SetStatsMatcher True [] init))))
     = Inr (NilMetrics ''http'' [(''env'', ''prod'')])"
    by simp
  with h1 h2 show ?thesis by blast
qed

text \<open>
  Claim C3 (format of the identity), as amended. For a label set that is not empty,
  \<open>fullName t ls\<close> is \<open>t\<close> followed, for each label in sorted key order, by
  \<open>.<key>.<value>\<close>. For the empty label set it is \<open>t\<close> followed by one dot, because the
  separator after the type is written before the joined pairs whether or not there
  are any.
\<close>

theorem fullName_format:
  "fullName t ls = (if ls = [] then t @ ''.'' else identity_spec t ls)"
proof (cases "ls = []")
  case True
  then show ?thesis by (simp add: fullName_unfold)
next
  case False
  have "length (sort (map fst ls)) = length ls" by simp
  with False have "sort (map fst ls) \<noteq> []" by force
  then have "map (\<lambda>k. k @ ''.'' @ index ls k) (sort (map fst ls)) \<noteq> []"
    by simp
  from Join_concat [OF this, of "''.''"] False show ?thesis
    by (simp add: fullName_unfold identity_spec_def comp_def)
qed

theorem fullName_format_witness:
  "[(''zone'', ''a''), (''env'', ''prod'')] \<noteq> [] \<and>
   fullName ''http'' [(''zone'', ''a''), (''env'', ''prod'')] = ''http.env.prod.zone.a''"
proof -
  have "identity_spec ''http'' [(''zone'', ''a''), (''env'', ''prod'')] = ''http.env.prod.zone.a''"
    by code_simp
  with fullName_format [of "''http''" "[(''zone'', ''a''), (''env'', ''prod'')]"]
  show ?thesis by simp
qed

theorem fullName_format_counterexample:
  "fullName ''t'' [] = ''t.'' \<and> identity_spec ''t'' [] = ''t'' \<and>
   fullName ''t'' [] \<noteq> identity_spec ''t'' []"
  by (simp add: fullName_unfold identity_spec_def)

text \<open>
  Claim C10 (collisions of the identity). The identity is not injective: the type
  \<open>t\<close> with the label \<open>a = b.c\<close> and the type \<open>t\<close> with the label \<open>a.b = c\<close> are
  different label sets with the same identity string \<open>t.a.b.c\<close>, so that, starting
  from the initial store, \<open>NewMetrics\<close> hands the Metric-Group created for the first to
  the caller asking for the second.
\<close>

theorem fullName_collision:
  "fullName ''t'' [(''a'', ''b.c'')] = fullName ''t'' [(''a.b'', ''c'')] \<and>
   map_of [(''a'', ''b.c'')] \<noteq> map_of [(''a.b'', ''c'')] \<and>
   fst (NewMetrics ''t'' [(''a'', ''b.c'')] init) = Inr (Stats 0) \<and>
   NewMetrics ''t'' [(''a.b'', ''c'')] (snd (NewMetrics ''t'' [(''a'', ''b.c'')] init))
     = (Inr (Stats 0), snd (NewMetrics ''t'' [(''a'', ''b.c'')] init))"
proof -
  let ?s1 = "snd (NewMetrics ''t'' [(''a'', ''b.c'')] init)"
  have 1: "fullName ''t'' [(''a'', ''b.c'')] = fullName ''t'' [(''a.b'', ''c'')]"
    by code_simp
  have 2: "map_of [(''a'', ''b.c'')] \<noteq> map_of [(''a.b'', ''c'')]"
  proof
    assume "map_of [(''a'', ''b.c'')] = map_of [(''a.b'', ''c'')]"
    then have "map_of [(''a'', ''b.c'')] ''a'' = map_of [(''a.b'', ''c'')] ''a''" by simp
    then show False by simp
  qed
  have 3: "fst (NewMetrics ''t'' [(''a'', ''b.c'')] init) = Inr (Stats 0)"
    by code_simp
  have "length [(''a.b'', ''c'')] \<le> 10" by simp
  moreover have "\<not> isExclusion [(''a.b'', ''c'')] ?s1"
    by code_simp
  moreover have "map_of (metrics (defaultStore ?s1)) (fullName ''t'' [(''a.b'', ''c'')])
                 = Some (Stats 0)"
    by code_simp
  ultimately have "NewMetrics ''t'' [(''a.b'', ''c'')] ?s1 = (Inr (Stats 0), ?s1)"
    by (rule NewMetrics_hit)
  with 1 2 3 show ?thesis by simp
qed

text \<open>
  Claim C7 (reset). Whatever the state, after \<open>ResetAll\<close> the table is empty, so
  \<open>GetAll\<close> returns the empty sequence, the reject-all flag is cleared and the
  excluded-key list is empty, so that no label set is excluded any more. In a state of
  the package, every Metric-Group that was in the table when \<open>ResetAll\<close> was called has
  had its instruments unregistered: its sub-registry is empty afterwards.
\<close>

theorem ResetAll_postcondition:
  "metrics (defaultStore (ResetAll s)) = [] \<and> GetAll (ResetAll s) = [] \<and>
   \<not> rejectAll (defaultStore (ResetAll s)) \<and>
   exclusionLabels (defaultStore (ResetAll s)) = [] \<and>
   \<not> isExclusion ls (ResetAll s) \<and>
   (store_inv s \<longrightarrow>
      (\<forall>m \<in> set (GetAll s). \<exists>a. m = Stats a \<and> a < length (heap (ResetAll s)) \<and>
          registry (heap (ResetAll s) ! a) = []))"
proof -
  have "\<exists>a. m = Stats a \<and> a < length (heap (ResetAll s)) \<and>
          registry (heap (ResetAll s) ! a) = []"
    if inv: "store_inv s" and m: "m \<in> set (GetAll s)" for m
  proof -
    from inv m obtain a where a: "m = Stats a" "a < length (heap s)"
      by (auto simp: store_inv_iff GetAll_def)
    from fold_UnregisterAll_registry [OF a(2), of "GetAll s"] m a(1)
    have "registry (heap (ResetAll s) ! a) = []" by (simp add: heap_ResetAll)
    with a show ?thesis by (simp add: ResetAll_simps)
  qed
  then show ?thesis
    by (simp add: ResetAll_simps GetAll_def isExclusion_def)
qed

theorem ResetAll_postcondition_witness:
  "store_inv (run [CallSetStatsMatcher True [''env''], CallNewMetrics ''http'' []]
               (run [CallNewMetrics ''rpc'' [], CallCounter 0 ''hits'', CallInc 0 2] init)) \<and>
   Stats 0 \<in> set (GetAll (run [CallSetStatsMatcher True [''env''], CallNewMetrics ''http'' []]
               (run [CallNewMetrics ''rpc'' [], CallCounter 0 ''hits'', CallInc 0 2] init))) \<and>
   GetAll (ResetAll (run [CallSetStatsMatcher True [''env''], CallNewMetrics ''http'' []]
               (run [CallNewMetrics ''rpc'' [], CallCounter 0 ''hits'', CallInc 0 2] init))) = [] \<and>
   \<not> isExclusion [(''env'', ''prod'')]
       (ResetAll (run [CallSetStatsMatcher True [''env''], CallNewMetrics ''http'' []]
               (run [CallNewMetrics ''rpc'' [], CallCounter 0 ''hits'', CallInc 0 2] init))) \<and>
   registry (heap (ResetAll (run [CallSetStatsMatcher True [''env''], CallNewMetrics ''http'' []]
               (run [CallNewMetrics ''rpc'' [], CallCounter 0 ''hits'', CallInc 0 2] init))) ! 0) = []"
proof -
  let ?s = "run [CallSetStatsMatcher True [''env''], CallNewMetrics ''http'' []]
               (run [CallNewMetrics ''rpc'' [], CallCounter 0 ''hits'', CallInc 0 2] init)"
  have h1: "store_inv ?s" by (intro store_inv_run store_inv_init)
  have h2: "Stats 0 \<in> set (GetAll ?s)" by code_simp
  from ResetAll_postcondition [of ?s "[(''env'', ''prod'')]"] h1 h2
  have "GetAll (ResetAll ?s) = [] \<and> \<not> isExclusion [(''env'', ''prod'')] (ResetAll ?s) \<and>
        registry (heap (ResetAll ?s) ! 0) = []"
    by blast
  with h1 h2 show ?thesis by blast
qed




text \<open>
  Claim C9 (reservoir of a new histogram). When the name \<open>n\<close> is free in the tracked
  Metric-Group \<open>a\<close>, \<open>Histogram n\<close> creates a histogram over an empty uniform sample of
  capacity 100, and whatever calls follow, observations with any random draws among
  them, that histogram keeps the capacity 100 and never retains more than 100
  samples.
\<close>

theorem Histogram_reservoir_bound:
  assumes "a < length (heap s)" "map_of (registry (heap s ! a)) n = None"
  shows "\<exists>i s1. Histogram n a s = Some (i, s1) \<and>
           instruments s1 ! i = StandardHistogram \<lparr>reservoirSize = 100, samples = []\<rparr> \<and>
           (\<forall>cs. reservoir_bounded 100 i (run cs s1))"
proof -
  let ?new = "NewHistogram (NewUniformSample 100)"
  let ?r = "GetOrRegister n ?new a s"
  from GetOrRegister_fresh [OF assms, of ?new]
  have f: "fst ?r = length (instruments s)" "instruments (snd ?r) = instruments s @ [?new]"
    by simp_all
  then have 1: "Histogram n a s = Some (length (instruments s), snd ?r)"
    using assms(1) by (simp add: Histogram_def assert_kind_def split_beta NewHistogram_def)
  from f(2) have 2: "instruments (snd ?r) ! length (instruments s)
      = StandardHistogram \<lparr>reservoirSize = 100, samples = []\<rparr>"
    by (simp add: NewHistogram_def NewUniformSample_def)
  with f(2) have "reservoir_bounded 100 (length (instruments s)) (snd ?r)"
    by (simp add: reservoir_bounded_def)
  then have "reservoir_bounded 100 (length (instruments s)) (run cs (snd ?r))" for cs
    by (rule reservoir_bounded_run)
  with 1 2 show ?thesis by blast
qed

theorem Histogram_reservoir_bound_witness:
  "0 < length (heap (run [CallNewMetrics ''http'' []] init)) \<and>
   map_of (registry (heap (run [CallNewMetrics ''http'' []] init) ! 0)) ''latency'' = None \<and>
   Histogram ''latency'' 0 (run [CallNewMetrics ''http'' []] init)
     = Some (0, run [CallNewMetrics ''http'' [], CallHistogram 0 ''latency''] init) \<and>
   reservoir_bounded 100 0
     (run (replicate 1000 (CallUpdate 0 7 3))
        (run [CallNewMetrics ''http'' [], CallHistogram 0 ''latency''] init))"
proof -
  let ?s = "run [CallNewMetrics ''http'' []] init"
  have h1: "0 < length (heap ?s)" by code_simp
  have h2: "map_of (registry (heap ?s ! 0)) ''latency'' = None" by code_simp
  from Histogram_reservoir_bound [OF h1 h2] obtain i s1 where
    r: "Histogram ''latency'' 0 ?s = Some (i, s1)"
       "\<forall>cs. reservoir_bounded 100 i (run cs s1)" by blast
  have e: "run [CallNewMetrics ''http'' [], CallHistogram 0 ''latency''] init
        = state_of (Histogram ''latency'' 0 ?s) ?s"
    by (simp add: run_def)
  have "fst (the (Histogram ''latency'' 0 ?s)) = 0" by code_simp
  with r(1) have i: "i = 0" by simp
  from r(1) e have s1: "s1 = run [CallNewMetrics ''http'' [], CallHistogram 0 ''latency''] init"
    by (simp add: state_of_def)
  from r i s1 h1 h2 show ?thesis by blast
qed

end
